theory Spec2Isabelle
  imports Complex_Main "HOL-Library.FSet"
begin

chapter \<open>The program\<close>

section \<open>Translation trees\<close>

text \<open>
  A translation file is the result of \<^verbatim>\<open>JSON.parse\<close>: the TypeScript type
  \<^verbatim>\<open>TranslationFile\<close> only names string leaves and nested objects, but the code tests
  \<^verbatim>\<open>Array.isArray\<close>, \<^verbatim>\<open>=== null\<close> and \<^verbatim>\<open>typeof\<close> at run time, so the model
  keeps every kind of JSON value apart. An object is the list of its own properties in
  the order \<^verbatim>\<open>Object.keys\<close> enumerates them; a JavaScript object has no repeated
  key. Property reads are reads of own properties: keys that name members of
  \<^verbatim>\<open>Object.prototype\<close> or \<^verbatim>\<open>Array.prototype\<close> are outside the model.
\<close>

datatype tval =
    Str string
  | Prim string
  | Null
  | Arr "tval list"
  | Obj "(string \<times> tval) list"

text \<open>\<^verbatim>\<open>typeof v === "object" && v !== null\<close>\<close>

fun isObject :: "tval \<Rightarrow> bool" where
  "isObject (Arr xs) = True"
| "isObject (Obj fs) = True"
| "isObject v = False"

text \<open>The decimal numeral of an array index, as \<^verbatim>\<open>Object.keys\<close> of an array gives it.\<close>

definition digit :: "nat \<Rightarrow> char" where
  "digit d = char_of (48 + d)"

fun indexKey :: "nat \<Rightarrow> string" where
  "indexKey n = (if n < 10 then [digit n] else indexKey (n div 10) @ [digit (n mod 10)])"

declare indexKey.simps [simp del]

text \<open>
  \<^verbatim>\<open>Object.keys(obj)\<close> paired with \<^verbatim>\<open>obj[key]\<close>. The callers pass objects and arrays
  only (the parameter type is \<^verbatim>\<open>TranslationFile\<close>, and every recursive call is guarded
  by \<^verbatim>\<open>typeof value === "object" && value !== null\<close>).
\<close>

fun entries :: "tval \<Rightarrow> (string \<times> tval) list" where
  "entries (Obj fs) = fs"
| "entries (Arr xs) = zip (map indexKey [0..<length xs]) xs"
| "entries v = []"

text \<open>\<^verbatim>\<open>obj[key]\<close>; \<open>None\<close> is \<^verbatim>\<open>undefined\<close>.\<close>

definition getProp :: "tval \<Rightarrow> string \<Rightarrow> tval option" where
  "getProp obj key = map_of (entries obj) key"

text \<open>The values under a container are smaller than it: the traversals below terminate.\<close>

lemma entries_size: "(k, v) \<in> set (entries obj) \<Longrightarrow> size v < size obj"
proof (cases obj)
  case (Arr xs)
  assume "(k, v) \<in> set (entries obj)"
  with Arr have "v \<in> set xs" by (auto dest: set_zip_rightD)
  then have "size v \<le> size_list size xs" by (simp add: size_list_estimation')
  with Arr show ?thesis by simp
next
  case (Obj fs)
  assume "(k, v) \<in> set (entries obj)"
  with Obj have "(k, v) \<in> set fs" by simp
  then have "size_prod (\<lambda>_. 0) size (k, v) \<le> size_list (size_prod (\<lambda>_. 0) size) fs"
    by (rule size_list_estimation') simp
  with Obj show ?thesis by simp
qed simp_all

lemma entries_item_size:
  assumes "(k, Arr xs) \<in> set (entries obj)" and "x \<in> set xs"
  shows "size x < size obj"
proof -
  have "size x \<le> size_list size xs"
    using assms(2) by (simp add: size_list_estimation')
  then have "size x < size (Arr xs)" by simp
  with entries_size [OF assms(1)] show ?thesis by simp
qed

section \<open>Flattening and counting\<close>

function flattenKeys :: "tval \<Rightarrow> string \<Rightarrow> string list" where
  "flattenKeys obj prefix =
     concat (map (\<lambda>(key, value).
         let fullPath = (if prefix \<noteq> [] then prefix @ ''.'' @ key else key)
         in if isObject value then flattenKeys value fullPath else [fullPath])
       (entries obj))"
  by pat_completeness auto
termination
  by (relation "measure (\<lambda>(obj, prefix). size obj)") (auto simp: entries_size)

function countLeafKeys :: "tval \<Rightarrow> nat" where
  "countLeafKeys obj =
     sum_list (map (\<lambda>value. if isObject value then countLeafKeys value else 1)
       (map snd (entries obj)))"
  by pat_completeness auto
termination
  by (relation "measure size") (auto simp: entries_size)

declare flattenKeys.simps [simp del] countLeafKeys.simps [simp del]

section \<open>Reading by key path\<close>

text \<open>\<^verbatim>\<open>keyPath.split(".")\<close>: never empty; the empty string splits into one empty part.\<close>

fun splitDot :: "string \<Rightarrow> string list" where
  "splitDot [] = [[]]"
| "splitDot (c # cs) =
     (if c = CHR ''.'' then [] # splitDot cs
      else (case splitDot cs of [] \<Rightarrow> [[c]] | part # parts \<Rightarrow> (c # part) # parts))"

text \<open>The loop of \<^verbatim>\<open>getValueAtPath\<close> over the parts, from the value reached so far.\<close>

fun walkParts :: "tval \<Rightarrow> string list \<Rightarrow> tval option" where
  "walkParts current [] = Some current"
| "walkParts current (part # parts) =
     (if \<not> isObject current then None
      else (case getProp current part of
              None \<Rightarrow> None
            | Some next_value \<Rightarrow> walkParts next_value parts))"

definition getValueAtPath :: "tval \<Rightarrow> string \<Rightarrow> tval option" where
  "getValueAtPath obj keyPath = walkParts obj (splitDot keyPath)"

datatype valueType = TString | TObject | TUndefined

text \<open>\<^verbatim>\<open>getValueType\<close>: every defined value that is not a non-null object is a "string".\<close>

fun getValueType :: "tval option \<Rightarrow> valueType" where
  "getValueType None = TUndefined"
| "getValueType (Some (Str s)) = TString"
| "getValueType (Some v) = (if isObject v then TObject else TString)"

section \<open>The diff engine\<close>

record TypeMismatch =
  path :: string
  sourceType :: valueType
  targetType :: valueType

record Summary =
  totalKeysInSource :: nat
  totalKeysInTarget :: nat
  missingCount :: nat
  extraCount :: nat
  typeMismatchCount :: nat

record DiscrepancyReport =
  missingInTarget :: "string list"
  extraInTarget :: "string list"
  typeMismatches :: "TypeMismatch list"
  summary :: Summary

text \<open>The body of the loop that collects the type mismatches, for one source key.\<close>

definition mismatchAt :: "tval \<Rightarrow> tval \<Rightarrow> string list \<Rightarrow> string \<Rightarrow> TypeMismatch list" where
  "mismatchAt source target targetKeys key =
     (if key \<in> set targetKeys then
        (let sourceValue = getValueAtPath source key;
             targetValue = getValueAtPath target key;
             srcType = getValueType sourceValue;
             tgtType = getValueType targetValue
         in if srcType \<noteq> tgtType \<and> srcType \<noteq> TUndefined \<and> tgtType \<noteq> TUndefined
            then [\<lparr>path = key, sourceType = srcType, targetType = tgtType\<rparr>]
            else [])
      else [])"

definition compareTranslations :: "tval \<Rightarrow> tval \<Rightarrow> DiscrepancyReport" where
  "compareTranslations source target =
     (let sourceKeys = flattenKeys source [];
          targetKeys = flattenKeys target [];
          missing = filter (\<lambda>key. key \<notin> set targetKeys) sourceKeys;
          extra = filter (\<lambda>key. key \<notin> set sourceKeys) targetKeys;
          mismatches = concat (map (mismatchAt source target targetKeys) sourceKeys)
      in \<lparr>missingInTarget = missing,
          extraInTarget = extra,
          typeMismatches = mismatches,
          summary = \<lparr>totalKeysInSource = length sourceKeys,
                      totalKeysInTarget = length targetKeys,
                      missingCount = length missing,
                      extraCount = length extra,
                      typeMismatchCount = length mismatches\<rparr>\<rparr>)"

section \<open>The structural reconciler\<close>

text \<open>
  \<^verbatim>\<open>reorderToMatchSource\<close> walks \<^verbatim>\<open>Object.keys(source)\<close> and assigns
  \<^verbatim>\<open>result[key]\<close> on a fresh object, so the result has one property per source key,
  in that order. In the element branch the recursive call receives any two non-null
  objects, arrays included; an array is then walked by its index keys and the result is
  a plain object.
\<close>

function reorderToMatchSource :: "tval \<Rightarrow> tval \<Rightarrow> tval" where
  "reorderToMatchSource source content =
     Obj (map (\<lambda>(key, sourceVal). (key,
       (let contentVal = getProp content key in
        case sourceVal of
          Obj sfs \<Rightarrow>
            (case contentVal of
               Some (Obj cfs) \<Rightarrow> reorderToMatchSource sourceVal (Obj cfs)
             | _ \<Rightarrow> sourceVal)
        | Arr sourceItems \<Rightarrow>
            (case contentVal of
               Some (Arr contentItems) \<Rightarrow>
                 if length contentItems = length sourceItems then
                   Arr (map (\<lambda>(sourceItem, contentItem).
                          if isObject sourceItem \<and> isObject contentItem
                          then reorderToMatchSource sourceItem contentItem
                          else contentItem)
                        (zip sourceItems contentItems))
                 else sourceVal
             | _ \<Rightarrow> sourceVal)
        | _ \<Rightarrow> (case contentVal of Some cv \<Rightarrow> cv | None \<Rightarrow> sourceVal))))
       (entries source))"
  by pat_completeness auto
termination
  by (relation "measure (\<lambda>(source, content). size source)")
     (auto simp del: tval.size simp: entries_size dest: set_zip_leftD intro: entries_item_size)

declare reorderToMatchSource.simps [simp del]

section \<open>The similarity score\<close>

text \<open>
  \<^verbatim>\<open>similarityScore\<close> takes two \<^verbatim>\<open>Set<string>\<close>; the sizes and the overlap count are
  integers. The model returns the exact quotient of the two integers of the final
  division; the JavaScript number is the double nearest to it.
\<close>

definition similarityScore :: "string fset \<Rightarrow> string fset \<Rightarrow> rat" where
  "similarityScore a b =
     (if fcard a = 0 \<or> fcard b = 0 then 0
      else
        (let overlap = int (fcard (ffilter (\<lambda>word. word |\<in>| b) a)) in
         if overlap = 0 then 0
         else
           (let union = int (fcard a) + int (fcard b) - overlap
            in of_int overlap / of_int union)))"

section \<open>The content classifier\<close>

text \<open>\<^verbatim>\<open>str.endsWith(suffix)\<close>\<close>

definition endsWith :: "string \<Rightarrow> string \<Rightarrow> bool" where
  "endsWith str suffix =
     (length suffix \<le> length str \<and> drop (length str - length suffix) str = suffix)"



text \<open>\<^verbatim>\<open>parts.join(".")\<close>\<close>

fun joinDot :: "string list \<Rightarrow> string" where
  "joinDot [] = []"
| "joinDot [part] = part"
| "joinDot (part # parts) = part @ ''.'' @ joinDot parts"

definition getParentSection :: "string \<Rightarrow> string" where
  "getParentSection keyPath =
     (let parts = splitDot keyPath
      in if length parts > 1 then joinDot (butlast parts) else [])"

record LinkedContentPattern =
  descriptionPattern :: string
  linksKey :: string
  linkTextField :: string
  linkHrefField :: string



definition configuredLinksKey :: "LinkedContentPattern list \<Rightarrow> string" where
  "configuredLinksKey patterns = (case patterns of [] \<Rightarrow> ''links'' | p # ps \<Rightarrow> linksKey p)"

definition configuredTextField :: "LinkedContentPattern list \<Rightarrow> string" where
  "configuredTextField patterns = (case patterns of [] \<Rightarrow> ''text'' | p # ps \<Rightarrow> linkTextField p)"

fun isString :: "tval option \<Rightarrow> bool" where
  "isString (Some (Str s)) = True"
| "isString v = False"







section \<open>Single translations\<close>

record TranslationContext =
  contextKey :: string
  englishValue :: string
  parentSection :: string
  existingTranslations :: "(string \<times> string) list"

text \<open>
  The fields \<^verbatim>\<open>key\<close> of a context and of a result are \<open>contextKey\<close> and
  \<open>resultKey\<close>. At run time \<^verbatim>\<open>translatedValue\<close> holds whatever value was assigned:
  a string from \<^verbatim>\<open>translateString\<close>, any JSON value from the \<^verbatim>\<open>linkTexts\<close> of a
  joint response. The optional \<^verbatim>\<open>similarExamples\<close> of a context only feed the prompt.
\<close>

record TranslationResult =
  resultKey :: string
  originalValue :: string
  translatedValue :: tval
  targetLanguage :: string

record LanguageInfo =
  code :: string
  languageName :: string
  nativeName :: string

definition startsWith :: "string \<Rightarrow> string \<Rightarrow> bool" where
  "startsWith str pre = (take (length pre) str = pre)"

text \<open>\<^verbatim>\<open>str.slice(start, -fromEnd)\<close>\<close>

definition sliceBetween :: "nat \<Rightarrow> nat \<Rightarrow> string \<Rightarrow> string" where
  "sliceBetween start fromEnd str = drop start (take (length str - fromEnd) str)"

text \<open>
  \<^verbatim>\<open>cleanupTranslation\<close>. The double quote is the character \<open>0x22\<close>, the backtick
  \<open>0x60\<close>; \<^verbatim>\<open>String.prototype.trim\<close> is a parameter.
\<close>

definition cleanupTranslation :: "(string \<Rightarrow> string) \<Rightarrow> string \<Rightarrow> string \<Rightarrow> string" where
  "cleanupTranslation trim translated original =
     (let quote = [CHR 0x22];
          tick = [CHR 0x60];
          originalStartsWithQuote = startsWith original quote;
          originalEndsWithQuote = endsWith original quote;
          r1 = (if \<not> originalStartsWithQuote \<and> \<not> originalEndsWithQuote
                  \<and> startsWith translated quote \<and> endsWith translated quote
                then sliceBetween 1 1 translated else translated);
          r2 = (if \<not> originalStartsWithQuote \<and> startsWith r1 quote
                  \<and> CHR 0x22 \<in> set original \<and> endsWith r1 quote
                then sliceBetween 1 1 r1 else r1);
          r3 = (if startsWith r2 tick \<and> endsWith r2 tick then sliceBetween 1 1 r2 else r2);
          r4 = (if startsWith r3 (tick @ tick @ tick) \<and> endsWith r3 (tick @ tick @ tick)
                then trim (sliceBetween 3 3 r3) else r3)
      in r4)"

text \<open>
  \<^verbatim>\<open>translateString\<close>. The call of the translation provider is the only effect; its
  outcome is an argument: \<open>Inl message\<close> when the call throws (the returned promise
  rejects), \<open>Inr text\<close> with \<open>text\<close> the value of
  \<^verbatim>\<open>response.output_text?.trim() || ""\<close> otherwise. Console output is not modelled.
\<close>

definition translateString ::
  "(string \<Rightarrow> string) \<Rightarrow> TranslationContext \<Rightarrow> LanguageInfo \<Rightarrow> string + string
     \<Rightarrow> string + TranslationResult" where
  "translateString trim context lang response =
     (case response of
        Inl message \<Rightarrow> Inl message
      | Inr text \<Rightarrow>
          Inr \<lparr>resultKey = contextKey context,
               originalValue = englishValue context,
               translatedValue = Str (cleanupTranslation trim text (englishValue context)),
               targetLanguage = code lang\<rparr>)"

section \<open>The bounded pool\<close>

text \<open>
  \<^verbatim>\<open>translateBatch\<close> keeps three counters and a pre-sized result array, and returns a
  promise that \<^verbatim>\<open>resolve(results)\<close> settles. The state below adds the indices of the
  calls in flight, the calls made to \<^verbatim>\<open>onProgress\<close>, and the value the promise was
  resolved with (\<open>None\<close> while it is pending). A slot of the array is \<open>None\<close> until
  it is assigned.
\<close>

record Pool =
  completed :: nat
  running :: nat
  index :: nat
  results :: "TranslationResult option list"
  inFlight :: "nat list"
  progress :: "(nat \<times> nat) list"
  resolved :: "TranslationResult option list option"

text \<open>The \<^verbatim>\<open>while\<close> loop of \<^verbatim>\<open>runNext\<close>: start calls while the cap and the input allow.\<close>

function runNext :: "int \<Rightarrow> nat \<Rightarrow> Pool \<Rightarrow> Pool" where
  "runNext concurrency totalCount st =
     (if int (running st) < concurrency \<and> index st < totalCount
      then runNext concurrency totalCount
             (st\<lparr>index := index st + 1,
                 running := running st + 1,
                 inFlight := inFlight st @ [index st]\<rparr>)
      else st)"
  by pat_completeness auto
termination
  by (relation "measure (\<lambda>(concurrency, totalCount, st). totalCount - index st)") auto

declare runNext.simps [simp del]

text \<open>The \<^verbatim>\<open>.catch\<close> handler's result: the original value stands in for the translation.\<close>

definition fallbackResult :: "TranslationContext \<Rightarrow> LanguageInfo \<Rightarrow> TranslationResult" where
  "fallbackResult context lang =
     \<lparr>resultKey = contextKey context,
      originalValue = englishValue context,
      translatedValue = Str (englishValue context),
      targetLanguage = code lang\<rparr>"

text \<open>
  The call for \<^verbatim>\<open>contexts[currentIndex]\<close> settles: \<^verbatim>\<open>.then\<close> or \<^verbatim>\<open>.catch\<close> assigns
  the slot, \<^verbatim>\<open>.finally\<close> updates the counters, reports progress, and resolves the
  promise or starts further calls. The three handlers of one call run in this order, and
  each touches only its own slot before \<^verbatim>\<open>.finally\<close>, so they are taken as one step.
\<close>

definition settle ::
  "(string \<Rightarrow> string) \<Rightarrow> TranslationContext list \<Rightarrow> LanguageInfo \<Rightarrow> int
     \<Rightarrow> (nat \<Rightarrow> string + string) \<Rightarrow> nat \<Rightarrow> Pool \<Rightarrow> Pool" where
  "settle trim contexts lang concurrency respond currentIndex st =
     (let slot = (case translateString trim (contexts ! currentIndex) lang (respond currentIndex) of
                    Inr result \<Rightarrow> result
                  | Inl message \<Rightarrow> fallbackResult (contexts ! currentIndex) lang);
          st1 = st\<lparr>results := (results st)[currentIndex := Some slot],
                   inFlight := remove1 currentIndex (inFlight st)\<rparr>;
          st2 = st1\<lparr>running := running st1 - 1,
                    completed := completed st1 + 1,
                    progress := progress st1 @ [(completed st1 + 1, length contexts)]\<rparr>
      in if completed st2 = length contexts
         then st2\<lparr>resolved := Some (results st2)\<rparr>
         else runNext concurrency (length contexts) st2)"

text \<open>
  The event loop: as long as a call is in flight, one of them settles next; which one is
  up to the provider and is given by the schedule (its entry, modulo the number of calls
  in flight, selects the call). With no call in flight nothing can happen any more.
\<close>

fun drain ::
  "(string \<Rightarrow> string) \<Rightarrow> TranslationContext list \<Rightarrow> LanguageInfo \<Rightarrow> int
     \<Rightarrow> (nat \<Rightarrow> string + string) \<Rightarrow> nat list \<Rightarrow> Pool \<Rightarrow> Pool" where
  "drain trim contexts lang concurrency respond [] st = st"
| "drain trim contexts lang concurrency respond (choice # schedule) st =
     (if inFlight st = [] then st
      else drain trim contexts lang concurrency respond schedule
             (settle trim contexts lang concurrency respond
                (inFlight st ! (choice mod length (inFlight st))) st))"

text \<open>
  \<^verbatim>\<open>translateBatch\<close>: the value its promise is resolved with, \<open>None\<close> when it is
  still pending after the scheduled events.
\<close>

definition translateBatch ::
  "(string \<Rightarrow> string) \<Rightarrow> TranslationContext list \<Rightarrow> LanguageInfo \<Rightarrow> int
     \<Rightarrow> (nat \<Rightarrow> string + string) \<Rightarrow> nat list \<Rightarrow> TranslationResult option list option" where
  "translateBatch trim contexts lang concurrency respond schedule =
     resolved (drain trim contexts lang concurrency respond schedule
       (runNext concurrency (length contexts)
          \<lparr>completed = 0, running = 0, index = 0,
           results = replicate (length contexts) None,
           inFlight = [], progress = [], resolved = None\<rparr>))"

section \<open>Joint translation of a description and its links\<close>

text \<open>
  \<^verbatim>\<open>translateDescriptionWithLinks\<close>. \<^verbatim>\<open>JSON.parse\<close> is a parameter: \<open>None\<close> when it
  throws. The first provider call and the provider call of the fallback are arguments,
  as in \<open>translateString\<close>. Reading \<^verbatim>\<open>parsed.description\<close> throws when \<open>parsed\<close> is
  \<^verbatim>\<open>null\<close>; both exceptions end in the \<^verbatim>\<open>catch\<close> block.
\<close>

definition descriptionResults ::
  "string \<Rightarrow> string \<Rightarrow> LanguageInfo \<Rightarrow> tval \<Rightarrow> TranslationResult list" where
  "descriptionResults descriptionKey description lang parsed =
     (case getProp parsed ''description'' of
        Some (Str d) \<Rightarrow>
          [\<lparr>resultKey = descriptionKey, originalValue = description,
            translatedValue = Str d, targetLanguage = code lang\<rparr>]
      | _ \<Rightarrow> [])"

definition linkResults ::
  "LinkedContentPattern list \<Rightarrow> string \<Rightarrow> string list \<Rightarrow> LanguageInfo \<Rightarrow> tval
     \<Rightarrow> TranslationResult list" where
  "linkResults patterns descriptionKey linkTexts lang parsed =
     (case getProp parsed ''linkTexts'' of
        Some (Arr parsedLinkTexts) \<Rightarrow>
          map (\<lambda>i. \<lparr>resultKey = getParentSection descriptionKey @ ''.'' @ configuredLinksKey patterns
                        @ ''.'' @ indexKey i @ ''.'' @ configuredTextField patterns,
                    originalValue = linkTexts ! i,
                    translatedValue = parsedLinkTexts ! i,
                    targetLanguage = code lang\<rparr>)
            [0..<min (length linkTexts) (length parsedLinkTexts)]
      | _ \<Rightarrow> [])"

definition descriptionOnly ::
  "(string \<Rightarrow> string) \<Rightarrow> string \<Rightarrow> string \<Rightarrow> LanguageInfo \<Rightarrow> string + string
     \<Rightarrow> string + TranslationResult list" where
  "descriptionOnly trim descriptionKey description lang fallbackResponse =
     (case translateString trim
             \<lparr>contextKey = descriptionKey, englishValue = description,
              parentSection = getParentSection descriptionKey, existingTranslations = []\<rparr>
             lang fallbackResponse of
        Inl message \<Rightarrow> Inl message
      | Inr fallback \<Rightarrow> Inr [fallback])"

definition translateDescriptionWithLinks ::
  "(string \<Rightarrow> string) \<Rightarrow> (string \<Rightarrow> tval option) \<Rightarrow> LinkedContentPattern list
     \<Rightarrow> string \<Rightarrow> string \<Rightarrow> string list \<Rightarrow> LanguageInfo
     \<Rightarrow> string + string \<Rightarrow> string + string \<Rightarrow> string + TranslationResult list" where
  "translateDescriptionWithLinks trim jsonParse patterns descriptionKey description linkTexts lang
       response fallbackResponse =
     (case response of
        Inl message \<Rightarrow> Inl message
      | Inr raw \<Rightarrow>
          (case jsonParse raw of
             None \<Rightarrow> descriptionOnly trim descriptionKey description lang fallbackResponse
           | Some Null \<Rightarrow> descriptionOnly trim descriptionKey description lang fallbackResponse
           | Some parsed \<Rightarrow>
               Inr (descriptionResults descriptionKey description lang parsed
                    @ linkResults patterns descriptionKey linkTexts lang parsed)))"

chapter \<open>Vocabulary of the properties\<close>

section \<open>Loop bodies as functions\<close>



definition mergeItem :: "tval \<times> tval \<Rightarrow> tval" where
  "mergeItem p = (if isObject (fst p) \<and> isObject (snd p)
                  then reorderToMatchSource (fst p) (snd p) else snd p)"

definition mergeVal :: "tval \<Rightarrow> tval option \<Rightarrow> tval" where
  "mergeVal sourceVal contentVal =
     (case sourceVal of
          Obj sfs \<Rightarrow>
            (case contentVal of
               Some (Obj cfs) \<Rightarrow> reorderToMatchSource sourceVal (Obj cfs)
             | _ \<Rightarrow> sourceVal)
        | Arr sourceItems \<Rightarrow>
            (case contentVal of
               Some (Arr contentItems) \<Rightarrow>
                 if length contentItems = length sourceItems then
                   Arr (map mergeItem (zip sourceItems contentItems))
                 else sourceVal
             | _ \<Rightarrow> sourceVal)
        | _ \<Rightarrow> (case contentVal of Some cv \<Rightarrow> cv | None \<Rightarrow> sourceVal))"

section \<open>Content that agrees with the source in shape\<close>





section \<open>Well-formed trees\<close>

text \<open>
  Two properties of a tree as \<^verbatim>\<open>JSON.parse\<close> builds it: no object has a repeated
  key (true of every JavaScript object), and no array is itself an element of an array.
\<close>

fun isArray :: "tval \<Rightarrow> bool" where
  "isArray (Arr xs) = True"
| "isArray v = False"

fun distinctKeys :: "tval \<Rightarrow> bool" where
  "distinctKeys (Obj fs) = (distinct (map fst fs) \<and> list_all (\<lambda>f. distinctKeys (snd f)) fs)"
| "distinctKeys (Arr xs) = list_all distinctKeys xs"
| "distinctKeys v = True"

fun noArrayInArray :: "tval \<Rightarrow> bool" where
  "noArrayInArray (Obj fs) = list_all (\<lambda>f. noArrayInArray (snd f)) fs"
| "noArrayInArray (Arr xs) = list_all (\<lambda>x. \<not> isArray x \<and> noArrayInArray x) xs"
| "noArrayInArray v = True"

section \<open>Shapes handed down by the source\<close>



section \<open>One more empty container\<close>


section \<open>Plain keys\<close>



section \<open>Indices and paths\<close>



section \<open>The state of the pool\<close>

text \<open>
  The result slot of the call for \<^verbatim>\<open>contexts[i]\<close>: the translation when the call
  succeeds, the fallback when it fails.
\<close>

definition slotOf ::
  "(string \<Rightarrow> string) \<Rightarrow> TranslationContext list \<Rightarrow> LanguageInfo
     \<Rightarrow> (nat \<Rightarrow> string + string) \<Rightarrow> nat \<Rightarrow> TranslationResult" where
  "slotOf trim contexts lang respond i =
     (case translateString trim (contexts ! i) lang (respond i) of
        Inr result \<Rightarrow> result
      | Inl message \<Rightarrow> fallbackResult (contexts ! i) lang)"

text \<open>
  What holds of the pool between two events while the promise is pending: the calls in
  flight are distinct and were all started, the counters agree with them, and every
  call that was started and is no longer in flight has filled its slot.
\<close>

definition poolInv :: "nat \<Rightarrow> (nat \<Rightarrow> TranslationResult) \<Rightarrow> Pool \<Rightarrow> bool" where
  "poolInv n slot st \<longleftrightarrow>
     index st \<le> n \<and> distinct (inFlight st) \<and> set (inFlight st) \<subseteq> {..<index st}
     \<and> running st = length (inFlight st) \<and> completed st + running st = index st
     \<and> length (results st) = n
     \<and> (\<forall>i<index st. i \<notin> set (inFlight st) \<longrightarrow> results st ! i = Some (slot i))
     \<and> resolved st = None"

chapter \<open>Properties\<close>

section \<open>Leaf count and flattened paths\<close>

lemma flattenKeys_length: "length (flattenKeys t p) = countLeafKeys t"
proof (induction t p rule: flattenKeys.induct)
  case (1 obj prefix)
  have step: "length (let fullPath = (if prefix \<noteq> [] then prefix @ ''.'' @ fst e else fst e)
         in if isObject (snd e) then flattenKeys (snd e) fullPath else [fullPath])
      = (if isObject (snd e) then countLeafKeys (snd e) else 1)"
    if "e \<in> set (entries obj)" for e
    using that 1 by (cases e) (auto simp: Let_def)
  have "length (flattenKeys obj prefix)
      = sum_list (map (\<lambda>e. length (let fullPath = (if prefix \<noteq> [] then prefix @ ''.'' @ fst e else fst e)
         in if isObject (snd e) then flattenKeys (snd e) fullPath else [fullPath])) (entries obj))"
    by (subst flattenKeys.simps) (simp add: length_concat comp_def case_prod_unfold)
  also have "\<dots> = sum_list (map (\<lambda>e. if isObject (snd e) then countLeafKeys (snd e) else 1) (entries obj))"
    using step by (auto intro!: arg_cong [where f = sum_list] map_cong)
  also have "\<dots> = countLeafKeys obj"
    by (subst countLeafKeys.simps) (simp add: comp_def)
  finally show ?case .
qed

text \<open>
  Claim C9. For every translation tree \<open>t\<close>, the sequence \<^verbatim>\<open>flattenKeys(t)\<close> (the
  prefix defaults to the empty string) has exactly \<^verbatim>\<open>countLeafKeys(t)\<close> entries: the
  flatten traversal emits one key path per leaf that the leaf counter counts.
\<close>

theorem C9_flattenKeys_length_countLeafKeys:
  "length (flattenKeys t []) = countLeafKeys t"
  by (rule flattenKeys_length)

theorem C9_flattenKeys_length_countLeafKeys_witness:
  "length (flattenKeys (Obj [(''a'', Obj [(''b'', Str ''Hi''), (''c'', Arr [Str ''x'', Obj []])])]) [])
     = countLeafKeys (Obj [(''a'', Obj [(''b'', Str ''Hi''), (''c'', Arr [Str ''x'', Obj []])])])
   \<and> countLeafKeys (Obj [(''a'', Obj [(''b'', Str ''Hi''), (''c'', Arr [Str ''x'', Obj []])])]) = 2"
proof -
  have "countLeafKeys (Obj [(''a'', Obj [(''b'', Str ''Hi''), (''c'', Arr [Str ''x'', Obj []])])]) = 2"
    by (simp add: countLeafKeys.simps)
  with C9_flattenKeys_length_countLeafKeys show ?thesis by simp
qed

section \<open>Order of the reconciled tree\<close>


lemma reorder_mergeVal:
  "reorderToMatchSource source content =
     Obj (map (\<lambda>e. (fst e, mergeVal (snd e) (getProp content (fst e)))) (entries source))"
  by (subst reorderToMatchSource.simps)
     (unfold mergeVal_def mergeItem_def [abs_def] case_prod_unfold Let_def fst_conv snd_conv, rule refl)

lemma entries_reorder:
  "entries (reorderToMatchSource source content) =
     map (\<lambda>e. (fst e, mergeVal (snd e) (getProp content (fst e)))) (entries source)"
  by (subst reorder_mergeVal) simp

lemma keys_reorder:
  "map fst (entries (reorderToMatchSource source content)) = map fst (entries source)"
  by (simp add: entries_reorder comp_def)


lemma isObject_reorder [simp]: "isObject (reorderToMatchSource s c)"
  by (subst reorder_mergeVal) simp






section \<open>Re-merging merged content\<close>

lemma map_of_map_entry:
  "map_of (map (\<lambda>e. (fst e, g e)) xs) k = (case find (\<lambda>e. fst e = k) xs of None \<Rightarrow> None | Some e \<Rightarrow> Some (g e))"
  by (induction xs) auto

lemma find_distinct_entry:
  "distinct (map fst xs) \<Longrightarrow> e \<in> set xs \<Longrightarrow> find (\<lambda>x. fst x = fst e) xs = Some e"
  by (induction xs) (auto simp: rev_image_eqI)

lemma getProp_reorder:
  assumes "distinct (map fst (entries s))" and "e \<in> set (entries s)"
  shows "getProp (reorderToMatchSource s c) (fst e) = Some (mergeVal (snd e) (getProp c (fst e)))"
  using find_distinct_entry [OF assms]
  by (simp add: getProp_def entries_reorder map_of_map_entry)

lemma mergeVal_None [simp]: "mergeVal sv None = sv"
  by (simp add: mergeVal_def split: tval.splits)

lemma reorder_idem_step:
  assumes "distinct (map fst (entries s))"
    and "\<And>e cv. e \<in> set (entries s) \<Longrightarrow>
           mergeVal (snd e) (Some (mergeVal (snd e) cv)) = mergeVal (snd e) cv"
  shows "reorderToMatchSource s (reorderToMatchSource s c) = reorderToMatchSource s c"
proof -
  have "mergeVal (snd e) (getProp (reorderToMatchSource s c) (fst e))
      = mergeVal (snd e) (getProp c (fst e))" if "e \<in> set (entries s)" for e
    using that assms by (simp add: getProp_reorder)
  then show ?thesis
    by (subst reorder_mergeVal, subst (2) reorder_mergeVal) simp
qed

lemma mergeVal_idem:
  "distinctKeys sv \<Longrightarrow> noArrayInArray sv \<Longrightarrow>
     mergeVal sv (Some (mergeVal sv cv)) = mergeVal sv cv"
proof (induction sv arbitrary: cv rule: measure_induct_rule [where f = size])
  case (less sv)
  show ?case
  proof (cases sv)
    case (Obj sfs)
    have fields: "mergeVal (snd e) (Some (mergeVal (snd e) cv')) = mergeVal (snd e) cv'"
      if "e \<in> set (entries sv)" for e cv'
    proof -
      from that Obj have "size (snd e) < size sv"
        using entries_size [of "fst e" "snd e" sv] by simp
      moreover from that Obj less.prems have "distinctKeys (snd e)" "noArrayInArray (snd e)"
        by (auto simp: list_all_iff)
      ultimately show ?thesis by (rule less.IH)
    qed
    from Obj less.prems have d: "distinct (map fst (entries sv))" by simp
    have idem: "reorderToMatchSource sv (reorderToMatchSource sv c) = reorderToMatchSource sv c" for c
      using d fields by (rule reorder_idem_step)
    have self: "reorderToMatchSource sv sv = sv"
    proof -
      have "mergeVal (snd e) (getProp sv (fst e)) = snd e" if "e \<in> set (entries sv)" for e
      proof -
        from d that have "getProp sv (fst e) = Some (snd e)"
          by (simp add: getProp_def)
        with fields [OF that, of None] show ?thesis by simp
      qed
      then have "map (\<lambda>e. (fst e, mergeVal (snd e) (getProp sv (fst e)))) (entries sv) = entries sv"
        by (simp add: map_idI)
      with Obj show ?thesis by (subst reorder_mergeVal) simp
    qed
    show ?thesis
    proof (cases "\<exists>cfs. cv = Some (Obj cfs)")
      case True
      then obtain cfs where cv: "cv = Some (Obj cfs)" by blast
      obtain rfs where r: "reorderToMatchSource sv (Obj cfs) = Obj rfs"
        using reorder_mergeVal by blast
      with idem [of "Obj cfs"] Obj cv show ?thesis by (simp add: mergeVal_def)
    next
      case False
      with Obj have "mergeVal sv cv = sv"
        by (auto simp: mergeVal_def split: option.splits tval.splits)
      with self Obj show ?thesis by (simp add: mergeVal_def)
    qed
  next
    case (Arr xs)
    have small: "size x < size sv" if "x \<in> set xs" for x
      using that Arr by (simp add: size_list_estimation less_Suc_eq_le size_list_estimation')
    have twice: "mergeItem (x, mergeItem (x, c)) = mergeItem (x, c)" if x: "x \<in> set xs" for x c
    proof (cases "isObject x \<and> isObject c")
      case True
      from x Arr less.prems have dx: "distinctKeys x" and nx: "noArrayInArray x" and "\<not> isArray x"
        by (auto simp: list_all_iff)
      with True obtain xfs where xo: "x = Obj xfs" by (cases x) auto
      have "mergeVal (snd e) (Some (mergeVal (snd e) cv')) = mergeVal (snd e) cv'"
        if "e \<in> set (entries x)" for e cv'
      proof -
        from that have "size (snd e) < size x"
          using entries_size [of "fst e" "snd e" x] by simp
        with small [OF x] have "size (snd e) < size sv" by simp
        moreover from that xo dx nx have "distinctKeys (snd e)" "noArrayInArray (snd e)"
          by (auto simp: list_all_iff)
        ultimately show ?thesis by (rule less.IH)
      qed
      moreover from xo dx have "distinct (map fst (entries x))" by simp
      ultimately have "reorderToMatchSource x (reorderToMatchSource x c) = reorderToMatchSource x c"
        by (intro reorder_idem_step)
      with True show ?thesis by (simp add: mergeItem_def)
    next
      case False
      then show ?thesis by (auto simp: mergeItem_def)
    qed
    have once: "mergeItem (x, x) = x" if x: "x \<in> set xs" for x
    proof (cases "isObject x")
      case True
      from x Arr less.prems have dx: "distinctKeys x" and nx: "noArrayInArray x" and "\<not> isArray x"
        by (auto simp: list_all_iff)
      with True obtain xfs where xo: "x = Obj xfs" by (cases x) auto
      from less.IH [OF small [OF x] dx nx, of None] xo show ?thesis
        by (simp add: mergeItem_def mergeVal_def)
    next
      case False
      then show ?thesis by (simp add: mergeItem_def)
    qed
    have self: "map mergeItem (zip xs xs) = xs"
      using once by (simp add: zip_same_conv_map map_idI)
    show ?thesis
    proof (cases "\<exists>cs. cv = Some (Arr cs) \<and> length cs = length xs")
      case True
      then obtain cs where cv: "cv = Some (Arr cs)" and len: "length cs = length xs" by blast
      have "map mergeItem (zip xs (map mergeItem (zip xs cs))) = map mergeItem (zip xs cs)"
      proof (rule nth_equalityI)
        show "length (map mergeItem (zip xs (map mergeItem (zip xs cs))))
            = length (map mergeItem (zip xs cs))" by simp
      next
        fix i
        assume "i < length (map mergeItem (zip xs (map mergeItem (zip xs cs))))"
        with len have i: "i < length xs" by simp
        with len twice [of "xs ! i" "cs ! i"]
        show "map mergeItem (zip xs (map mergeItem (zip xs cs))) ! i = map mergeItem (zip xs cs) ! i"
          by simp
      qed
      with Arr cv len show ?thesis by (simp add: mergeVal_def)
    next
      case False
      with Arr have "mergeVal sv cv = sv"
        by (auto simp: mergeVal_def split: option.splits tval.splits)
      with self Arr show ?thesis by (simp add: mergeVal_def)
    qed
  next
    case (Str x)
    then show ?thesis by (simp add: mergeVal_def split: option.splits)
  next
    case (Prim x)
    then show ?thesis by (simp add: mergeVal_def split: option.splits)
  next
    case Null
    then show ?thesis by (simp add: mergeVal_def split: option.splits)
  qed
qed

text \<open>
  For a source without an array directly inside an array, merging merged content again
  changes nothing.
\<close>

lemma reorder_idempotent:
  assumes "distinctKeys (Obj sfs)" and "noArrayInArray (Obj sfs)"
  shows "reorderToMatchSource (Obj sfs) (reorderToMatchSource (Obj sfs) c)
       = reorderToMatchSource (Obj sfs) c"
proof (rule reorder_idem_step)
  from assms show "distinct (map fst (entries (Obj sfs)))" by simp
next
  fix e cv
  assume "e \<in> set (entries (Obj sfs))"
  with assms have "distinctKeys (snd e)" "noArrayInArray (snd e)"
    by (auto simp: list_all_iff)
  then show "mergeVal (snd e) (Some (mergeVal (snd e) cv)) = mergeVal (snd e) cv"
    by (rule mergeVal_idem)
qed

text \<open>
  Claim C6 states \<^verbatim>\<open>reorder(S, reorder(S, C)) == reorder(S, C)\<close> for all trees. The
  element branch of \<^verbatim>\<open>reorderToMatchSource\<close> tests only \<^verbatim>\<open>typeof === "object"\<close>
  (the property branch also tests \<^verbatim>\<open>!Array.isArray\<close>), so an array that is an element
  of an array is merged as if it were a plain object and comes back as one. At the source
  \<^verbatim>\<open>{"a": [["x"]]}\<close> and the content \<^verbatim>\<open>{}\<close> the first merge returns the source, the
  second merge returns \<^verbatim>\<open>{"a": [{"0": "x"}]}\<close>.
\<close>

theorem C6_reorder_twice_nested_array:
  "reorderToMatchSource (Obj [(''a'', Arr [Arr [Str ''x'']])]) (Obj [])
     = Obj [(''a'', Arr [Arr [Str ''x'']])]
   \<and> reorderToMatchSource (Obj [(''a'', Arr [Arr [Str ''x'']])])
       (reorderToMatchSource (Obj [(''a'', Arr [Arr [Str ''x'']])]) (Obj []))
     = Obj [(''a'', Arr [Obj [(''0'', Str ''x'')]])]"
  by code_simp

section \<open>Shapes kept by the reconciler\<close>









section \<open>Empty containers and the diff\<close>






section \<open>Key paths of trees with plain keys\<close>

















text \<open>
  Claim C2 states that \<^verbatim>\<open>typeMismatches\<close> lists the key paths present in both trees
  where one side resolves to a string and the other to a container. The loop of
  \<^verbatim>\<open>compareTranslations\<close> only visits flattened (leaf) paths of the source that are
  also flattened paths of the target, so a path that is a leaf on one side and a
  container on the other is never visited: it is reported as missing and its subtree as
  extra (or the other way round), and no type mismatch is recorded. Source
  \<^verbatim>\<open>{"a": "x"}\<close> against target \<^verbatim>\<open>{"a": {"b": "y"}}\<close>, and the same two trees
  swapped:
\<close>

theorem C2_leaf_against_container_unreported:
  "getValueType (getValueAtPath (Obj [(''a'', Str ''x'')]) ''a'') = TString
   \<and> getValueType (getValueAtPath (Obj [(''a'', Obj [(''b'', Str ''y'')])]) ''a'') = TObject
   \<and> compareTranslations (Obj [(''a'', Str ''x'')]) (Obj [(''a'', Obj [(''b'', Str ''y'')])])
     = \<lparr>missingInTarget = [''a''], extraInTarget = [''a.b''], typeMismatches = [],
        summary = \<lparr>totalKeysInSource = 1, totalKeysInTarget = 1, missingCount = 1,
                    extraCount = 1, typeMismatchCount = 0\<rparr>\<rparr>
   \<and> compareTranslations (Obj [(''a'', Obj [(''b'', Str ''y'')])]) (Obj [(''a'', Str ''x'')])
     = \<lparr>missingInTarget = [''a.b''], extraInTarget = [''a''], typeMismatches = [],
        summary = \<lparr>totalKeysInSource = 1, totalKeysInTarget = 1, missingCount = 1,
                    extraCount = 1, typeMismatchCount = 0\<rparr>\<rparr>"
  by code_simp



section \<open>Symmetry and bounds of the similarity score\<close>

lemma overlap_inter: "ffilter (\<lambda>word. word |\<in>| b) a = a |\<inter>| b"
  by auto

lemma similarityScore_inter:
  "similarityScore a b =
     (if a = {||} \<or> b = {||} then 0
      else of_nat (fcard (a |\<inter>| b)) / of_nat (fcard a + fcard b - fcard (a |\<inter>| b)))"
proof -
  have le: "fcard (a |\<inter>| b) \<le> fcard a"
    by (simp add: fcard_mono)
  then have "int (fcard a) + int (fcard b) - int (fcard (a |\<inter>| b))
      = int (fcard a + fcard b - fcard (a |\<inter>| b))"
    by simp
  then show ?thesis
    by (simp add: similarityScore_def overlap_inter Let_def del: of_nat_diff of_nat_add)
qed

lemma similarityScore_sym: "similarityScore a b = similarityScore b a"
  by (simp add: similarityScore_inter inf_commute add.commute)

lemma quotient_bounds:
  "n \<le> d \<Longrightarrow> 0 \<le> (of_nat n / of_nat d :: rat) \<and> (of_nat n / of_nat d :: rat) \<le> 1"
  by (cases "d = 0") (simp_all add: divide_le_eq_1_pos)

lemma similarityScore_bounds: "0 \<le> similarityScore a b \<and> similarityScore a b \<le> 1"
proof -
  have "fcard (a |\<inter>| b) \<le> fcard a" "fcard (a |\<inter>| b) \<le> fcard b"
    by (simp_all add: fcard_mono)
  then have "fcard (a |\<inter>| b) \<le> fcard a + fcard b - fcard (a |\<inter>| b)"
    by simp
  from quotient_bounds [OF this] show ?thesis
    by (simp add: similarityScore_inter del: of_nat_diff of_nat_add)
qed

text \<open>
  Claim C8. For all token sets \<open>A\<close> and \<open>B\<close> the score is symmetric, lies between 0
  and 1 inclusive, and equals \<open>|A \<inter> B| / (|A| + |B| - |A \<inter> B|)\<close>, with the value 0
  when either set is empty.
\<close>

theorem C8_similarityScore_symmetric_bounded:
  "similarityScore A B = similarityScore B A
   \<and> 0 \<le> similarityScore A B \<and> similarityScore A B \<le> 1
   \<and> similarityScore A B =
       (if A = {||} \<or> B = {||} then 0
        else of_nat (fcard (A |\<inter>| B)) / of_nat (fcard A + fcard B - fcard (A |\<inter>| B)))"
  using similarityScore_sym [of A B] similarityScore_bounds [of A B] similarityScore_inter [of A B]
  by simp

theorem C8_similarityScore_symmetric_bounded_witness:
  "similarityScore {|''save'', ''changes''|} {|''changes'', ''discard'', ''now''|} = 1 / 4
   \<and> similarityScore {|''changes'', ''discard'', ''now''|} {|''save'', ''changes''|} = 1 / 4"
proof -
  have "similarityScore {|''save'', ''changes''|} {|''changes'', ''discard'', ''now''|} = 1 / 4"
    by code_simp
  with C8_similarityScore_symmetric_bounded
    [of "{|''save'', ''changes''|}" "{|''changes'', ''discard'', ''now''|}"]
  show ?thesis by simp
qed

section \<open>Groups of the classifier\<close>













section \<open>Results of the pool\<close>

lemma runNext_inv:
  "poolInv n slot st \<Longrightarrow>
     poolInv n slot (runNext concurrency n st)
     \<and> completed (runNext concurrency n st) = completed st
     \<and> \<not> (int (running (runNext concurrency n st)) < concurrency
          \<and> index (runNext concurrency n st) < n)"
proof (induction concurrency n st rule: runNext.induct)
  case (1 concurrency n st)
  show ?case
  proof (cases "int (running st) < concurrency \<and> index st < n")
    case True
    let ?st = "st\<lparr>index := index st + 1, running := running st + 1,
                   inFlight := inFlight st @ [index st]\<rparr>"
    from True have eq: "runNext concurrency n st = runNext concurrency n ?st"
      by (subst runNext.simps) simp
    from "1.prems" True have "poolInv n slot ?st"
      by (auto simp: poolInv_def less_Suc_eq)
    from "1.IH" [OF True this] show ?thesis
      by (simp add: eq)
  next
    case False
    then have "runNext concurrency n st = st"
      by (subst runNext.simps) (simp only: if_False)
    with "1.prems" False show ?thesis by simp
  qed
qed

lemma runNext_busy:
  assumes inv: "poolInv n slot st" and cap: "1 \<le> concurrency" and pending: "completed st < n"
  shows "inFlight (runNext concurrency n st) \<noteq> []"
proof
  define st' where "st' = runNext concurrency n st"
  assume "inFlight (runNext concurrency n st) = []"
  then have empty: "inFlight st' = []" by (simp add: st'_def)
  from runNext_inv [OF inv, of concurrency]
  have inv': "poolInv n slot st'" and same: "completed st' = completed st"
    and stop: "\<not> (int (running st') < concurrency \<and> index st' < n)"
    by (simp_all add: st'_def)
  from inv' empty have idle: "running st' = 0" by (simp add: poolInv_def)
  with cap stop have "\<not> index st' < n" by simp
  moreover from inv' have "index st' \<le> n" "completed st' + running st' = index st'"
    by (simp_all add: poolInv_def)
  ultimately have "completed st' = n" using idle by simp
  with same pending show False by simp
qed

lemma drain_idle: "inFlight st = [] \<Longrightarrow> drain trim contexts lang concurrency respond schedule st = st"
  by (cases schedule) simp_all

lemma settle_last:
  assumes inv: "poolInv (length contexts) (slotOf trim contexts lang respond) st"
    and i: "i \<in> set (inFlight st)"
    and last: "completed st + 1 = length contexts"
  shows "resolved (settle trim contexts lang concurrency respond i st)
           = Some (map (\<lambda>j. Some (slotOf trim contexts lang respond j)) [0..<length contexts])"
    and "inFlight (settle trim contexts lang concurrency respond i st) = []"
proof -
  from inv i have "running st \<ge> 1" by (cases "inFlight st") (auto simp: poolInv_def)
  with inv last have idx: "index st = length contexts" and one: "length (inFlight st) = 1"
    by (auto simp: poolInv_def)
  from one i have fl: "inFlight st = [i]" by (cases "inFlight st") auto
  from inv fl idx have ilt: "i < length contexts" by (auto simp: poolInv_def)
  have "(results st)[i := Some (slotOf trim contexts lang respond i)]
      = map (\<lambda>j. Some (slotOf trim contexts lang respond j)) [0..<length contexts]"
  proof (rule nth_equalityI)
    show "length ((results st)[i := Some (slotOf trim contexts lang respond i)])
        = length (map (\<lambda>j. Some (slotOf trim contexts lang respond j)) [0..<length contexts])"
      using inv by (simp add: poolInv_def)
  next
    fix j
    assume "j < length ((results st)[i := Some (slotOf trim contexts lang respond i)])"
    with inv have j: "j < length contexts" by (simp add: poolInv_def)
    show "(results st)[i := Some (slotOf trim contexts lang respond i)] ! j
        = map (\<lambda>j. Some (slotOf trim contexts lang respond j)) [0..<length contexts] ! j"
    proof (cases "j = i")
      case True
      with inv j show ?thesis by (simp add: poolInv_def)
    next
      case False
      with inv j fl idx have "results st ! j = Some (slotOf trim contexts lang respond j)"
        by (simp add: poolInv_def)
      with False j show ?thesis by simp
    qed
  qed
  with last fl show "resolved (settle trim contexts lang concurrency respond i st)
           = Some (map (\<lambda>j. Some (slotOf trim contexts lang respond j)) [0..<length contexts])"
    by (simp add: settle_def Let_def slotOf_def)
  from last fl show "inFlight (settle trim contexts lang concurrency respond i st) = []"
    by (simp add: settle_def Let_def)
qed

lemma settle_more:
  assumes inv: "poolInv (length contexts) (slotOf trim contexts lang respond) st"
    and i: "i \<in> set (inFlight st)"
    and more: "completed st + 1 \<noteq> length contexts"
    and cap: "1 \<le> concurrency"
  shows "poolInv (length contexts) (slotOf trim contexts lang respond)
           (settle trim contexts lang concurrency respond i st)"
    and "completed (settle trim contexts lang concurrency respond i st) = completed st + 1"
    and "inFlight (settle trim contexts lang concurrency respond i st) \<noteq> []"
proof -
  let ?slot = "slotOf trim contexts lang respond"
  let ?n = "length contexts"
  let ?st2 = "st\<lparr>results := (results st)[i := Some (?slot i)],
                  inFlight := remove1 i (inFlight st),
                  running := running st - 1,
                  completed := completed st + 1,
                  progress := progress st @ [(completed st + 1, ?n)]\<rparr>"
  from inv i have run: "running st \<ge> 1" by (cases "inFlight st") (auto simp: poolInv_def)
  from inv i have ilt: "i < index st" by (auto simp: poolInv_def)
  have inv2: "poolInv ?n ?slot ?st2"
    unfolding poolInv_def
  proof (intro conjI allI impI)
    show "index ?st2 \<le> ?n" using inv by (simp add: poolInv_def)
    show "distinct (inFlight ?st2)" using inv by (simp add: poolInv_def)
    show "set (inFlight ?st2) \<subseteq> {..<index ?st2}"
      using inv set_remove1_subset [of i "inFlight st"] by (auto simp: poolInv_def)
    show "running ?st2 = length (inFlight ?st2)"
      using inv i by (simp add: poolInv_def length_remove1)
    show "completed ?st2 + running ?st2 = index ?st2"
    proof -
      from inv have "completed st + running st = index st" by (simp add: poolInv_def)
      with run show ?thesis by simp
    qed
    show "length (results ?st2) = ?n" using inv by (simp add: poolInv_def)
    show "resolved ?st2 = None" using inv by (simp add: poolInv_def)
  next
    fix j
    assume j: "j < index ?st2" and nin: "j \<notin> set (inFlight ?st2)"
    show "results ?st2 ! j = Some (?slot j)"
    proof (cases "j = i")
      case True
      with inv ilt show ?thesis by (simp add: poolInv_def)
    next
      case False
      with nin inv have "j \<notin> set (inFlight st)" by (simp add: poolInv_def)
      with inv j False show ?thesis by (simp add: poolInv_def)
    qed
  qed
  have eq: "settle trim contexts lang concurrency respond i st = runNext concurrency ?n ?st2"
    using more by (simp add: settle_def Let_def slotOf_def)
  note after = runNext_inv [OF inv2, of concurrency]
  from after eq show "poolInv ?n ?slot (settle trim contexts lang concurrency respond i st)"
    by simp
  from after eq show c: "completed (settle trim contexts lang concurrency respond i st) = completed st + 1"
    by simp
  show "inFlight (settle trim contexts lang concurrency respond i st) \<noteq> []"
  proof -
    from inv run more have "completed st + 1 < ?n" by (simp add: poolInv_def)
    then have "completed ?st2 < ?n" by simp
    from runNext_busy [OF inv2 cap this] eq show ?thesis by simp
  qed
qed

text \<open>
  While calls are in flight, enough further events resolve the promise with every slot
  filled, in input order, whichever call settles first.
\<close>

lemma drain_resolves:
  assumes "poolInv (length contexts) (slotOf trim contexts lang respond) st"
    and "inFlight st \<noteq> []"
    and "1 \<le> concurrency"
    and "length contexts - completed st \<le> length schedule"
  shows "resolved (drain trim contexts lang concurrency respond schedule st)
           = Some (map (\<lambda>j. Some (slotOf trim contexts lang respond j)) [0..<length contexts])"
  using assms
proof (induction schedule arbitrary: st)
  case Nil
  then have "running st \<ge> 1" by (cases "inFlight st") (auto simp: poolInv_def)
  with Nil show ?case by (auto simp: poolInv_def)
next
  case (Cons choice schedule)
  let ?i = "inFlight st ! (choice mod length (inFlight st))"
  from Cons.prems(2) have i: "?i \<in> set (inFlight st)" by simp
  show ?case
  proof (cases "completed st + 1 = length contexts")
    case True
    from settle_last [OF Cons.prems(1) i True, of concurrency] Cons.prems(2) show ?thesis
      by (simp add: drain_idle)
  next
    case False
    note step = settle_more [OF Cons.prems(1) i False Cons.prems(3)]
    from Cons.prems(4) step(2)
    have "length contexts - completed (settle trim contexts lang concurrency respond ?i st)
            \<le> length schedule" by simp
    from Cons.IH [OF step(1) step(3) Cons.prems(3) this] Cons.prems(2) show ?thesis
      by simp
  qed
qed

lemma translateBatch_resolves:
  assumes "contexts \<noteq> []" and "1 \<le> concurrency" and "length contexts \<le> length schedule"
  shows "translateBatch trim contexts lang concurrency respond schedule
           = Some (map (\<lambda>j. Some (slotOf trim contexts lang respond j)) [0..<length contexts])"
proof -
  let ?init = "\<lparr>completed = 0, running = 0, index = 0,
           results = replicate (length contexts) None,
           inFlight = [], progress = [], resolved = None\<rparr>"
  let ?st = "runNext concurrency (length contexts) ?init"
  have init: "poolInv (length contexts) (slotOf trim contexts lang respond) ?init"
    by (simp add: poolInv_def)
  note start = runNext_inv [OF init, of concurrency]
  have "inFlight ?st \<noteq> []"
    using init assms(1,2) by (intro runNext_busy) simp_all
  moreover from start assms(3) have "length contexts - completed ?st \<le> length schedule" by simp
  ultimately show ?thesis
    using start assms(2) by (simp add: translateBatch_def drain_resolves)
qed

lemma translateBatch_empty:
  "translateBatch trim [] lang concurrency respond schedule = None"
  by (simp add: translateBatch_def runNext.simps drain_idle)

text \<open>
  The entries of the resolved array, for a non-empty batch: one per context, at the
  context's position, carrying the context's key and source value; the entry of a
  failed call has the source value as its translation.
\<close>

lemma translateBatch_entries:
  assumes "contexts \<noteq> []" and "1 \<le> concurrency" and "length contexts \<le> length schedule"
  shows "\<exists>rs. translateBatch trim contexts lang concurrency respond schedule = Some (map Some rs)
           \<and> length rs = length contexts
           \<and> (\<forall>i<length contexts.
                 resultKey (rs ! i) = contextKey (contexts ! i)
                 \<and> originalValue (rs ! i) = englishValue (contexts ! i)
                 \<and> targetLanguage (rs ! i) = code lang
                 \<and> (isl (respond i) \<longrightarrow> translatedValue (rs ! i) = Str (englishValue (contexts ! i))))"
proof -
  let ?rs = "map (slotOf trim contexts lang respond) [0..<length contexts]"
  have "translateBatch trim contexts lang concurrency respond schedule = Some (map Some ?rs)"
    using translateBatch_resolves [OF assms] by (simp add: comp_def)
  moreover have "resultKey (?rs ! i) = contextKey (contexts ! i)
       \<and> originalValue (?rs ! i) = englishValue (contexts ! i)
       \<and> targetLanguage (?rs ! i) = code lang
       \<and> (isl (respond i) \<longrightarrow> translatedValue (?rs ! i) = Str (englishValue (contexts ! i)))"
    if "i < length contexts" for i
    using that
    by (cases "respond i") (simp_all add: slotOf_def translateString_def fallbackResult_def)
  ultimately show ?thesis by (intro exI [of _ ?rs]) simp
qed

text \<open>
  Five contexts, at most two calls in flight, the third call fails: the third entry is
  the fallback, the others are translated, all in input order.
\<close>

lemma pool_fallback_scenario:
  "translateBatch (\<lambda>s. s)
     (map (\<lambda>s. \<lparr>contextKey = ''k.'' @ s, englishValue = s, parentSection = ''k'',
                 existingTranslations = []\<rparr>) [''a'', ''b'', ''c'', ''d'', ''e''])
     \<lparr>code = ''de'', languageName = ''German'', nativeName = ''Deutsch''\<rparr> 2
     (\<lambda>i. if i = 2 then Inl ''timeout'' else Inr ''X'') [1, 1, 0, 1, 0]
   = Some (map Some
      [\<lparr>resultKey = ''k.a'', originalValue = ''a'', translatedValue = Str ''X'', targetLanguage = ''de''\<rparr>,
       \<lparr>resultKey = ''k.b'', originalValue = ''b'', translatedValue = Str ''X'', targetLanguage = ''de''\<rparr>,
       \<lparr>resultKey = ''k.c'', originalValue = ''c'', translatedValue = Str ''c'', targetLanguage = ''de''\<rparr>,
       \<lparr>resultKey = ''k.d'', originalValue = ''d'', translatedValue = Str ''X'', targetLanguage = ''de''\<rparr>,
       \<lparr>resultKey = ''k.e'', originalValue = ''e'', translatedValue = Str ''X'', targetLanguage = ''de''\<rparr>])"
  by code_simp

text \<open>
  Claim C3 covers every list of contexts. For the empty list \<^verbatim>\<open>runNext\<close> starts no
  call, and \<^verbatim>\<open>resolve\<close> is only reached from the \<^verbatim>\<open>.finally\<close> handler of a call: the
  promise of \<^verbatim>\<open>translateBatch([], ...)\<close> stays pending whatever happens later, so no
  result sequence is returned.
\<close>

theorem C3_empty_batch_never_resolves:
  "translateBatch trim [] lang concurrency respond schedule = None"
  by (rule translateBatch_empty)

section \<open>When the joint translation falls back\<close>

lemma joint_fallback:
  assumes "jsonParse raw = None \<or> jsonParse raw = Some Null"
  shows "translateDescriptionWithLinks trim jsonParse patterns descriptionKey description
           linkTexts lang (Inr raw) fallbackResponse
         = descriptionOnly trim descriptionKey description lang fallbackResponse"
  using assms by (auto simp: translateDescriptionWithLinks_def)

lemma joint_no_fallback:
  assumes "jsonParse raw = Some parsed" and "parsed \<noteq> Null"
  shows "translateDescriptionWithLinks trim jsonParse patterns descriptionKey description
           linkTexts lang (Inr raw) fallbackResponse
         = Inr (descriptionResults descriptionKey description lang parsed
                @ linkResults patterns descriptionKey linkTexts lang parsed)"
  using assms by (cases parsed) (simp_all add: translateDescriptionWithLinks_def)

lemma descriptionOnly_result:
  "descriptionOnly trim descriptionKey description lang (Inr text)
     = Inr [\<lparr>resultKey = descriptionKey, originalValue = description,
             translatedValue = Str (cleanupTranslation trim text description),
             targetLanguage = code lang\<rparr>]"
  "descriptionOnly trim descriptionKey description lang (Inl message) = Inl message"
  by (simp_all add: descriptionOnly_def translateString_def)

lemma descriptionResults_empty:
  "descriptionResults descriptionKey description lang parsed = []
     \<longleftrightarrow> \<not> isString (getProp parsed ''description'')"
  by (auto simp: descriptionResults_def split: option.splits tval.splits)

text \<open>
  Claim C5, as amended. \<^verbatim>\<open>translateDescriptionWithLinks\<close> falls back to translating
  only the description exactly when reading the response throws: the text is not JSON,
  or it is the JSON value \<^verbatim>\<open>null\<close>. The fallback then yields the description's
  result and no anchor results (or fails with the fallback call). Any other parsed value
  is final: the result does not depend on a fallback call, it holds a description result
  only if the parsed value has a string \<^verbatim>\<open>description\<close>, followed by the anchor
  results of a \<^verbatim>\<open>linkTexts\<close> array if there is one.
\<close>

theorem C5_fallback_exactly_on_throw:
  "(jsonParse raw = None \<or> jsonParse raw = Some Null \<longrightarrow>
      translateDescriptionWithLinks trim jsonParse patterns descriptionKey description
          linkTexts lang (Inr raw) (Inr text)
        = Inr [\<lparr>resultKey = descriptionKey, originalValue = description,
                translatedValue = Str (cleanupTranslation trim text description),
                targetLanguage = code lang\<rparr>]
      \<and> translateDescriptionWithLinks trim jsonParse patterns descriptionKey description
          linkTexts lang (Inr raw) (Inl message) = Inl message)
   \<and> (jsonParse raw = Some parsed \<and> parsed \<noteq> Null \<longrightarrow>
      translateDescriptionWithLinks trim jsonParse patterns descriptionKey description
          linkTexts lang (Inr raw) fallbackResponse
        = Inr (descriptionResults descriptionKey description lang parsed
               @ linkResults patterns descriptionKey linkTexts lang parsed)
      \<and> (descriptionResults descriptionKey description lang parsed = []
           \<longleftrightarrow> \<not> isString (getProp parsed ''description'')))"
  using joint_fallback [of jsonParse raw] joint_no_fallback [of jsonParse raw parsed]
  by (simp add: descriptionOnly_result descriptionResults_empty)

theorem C5_fallback_exactly_on_throw_witness:
  "translateDescriptionWithLinks (\<lambda>s. s)
     (\<lambda>s. if s = ''null'' then Some Null else None) [] ''sec.description'' ''Read the docs''
     [''docs''] \<lparr>code = ''de'', languageName = ''German'', nativeName = ''Deutsch''\<rparr>
     (Inr ''Lies die Doku'') (Inr ''Lies die Doku'')
   = Inr [\<lparr>resultKey = ''sec.description'', originalValue = ''Read the docs'',
           translatedValue = Str ''Lies die Doku'', targetLanguage = ''de''\<rparr>]
   \<and> translateDescriptionWithLinks (\<lambda>s. s)
     (\<lambda>s. Some (Obj [(''description'', Str ''Lies die Doku''), (''linkTexts'', Arr [Str ''Doku''])]))
     [] ''sec.description'' ''Read the docs''
     [''docs''] \<lparr>code = ''de'', languageName = ''German'', nativeName = ''Deutsch''\<rparr>
     (Inr ''json'') (Inl ''unused'')
   = Inr [\<lparr>resultKey = ''sec.description'', originalValue = ''Read the docs'',
           translatedValue = Str ''Lies die Doku'', targetLanguage = ''de''\<rparr>,
          \<lparr>resultKey = ''sec.links.0.text'', originalValue = ''docs'',
           translatedValue = Str ''Doku'', targetLanguage = ''de''\<rparr>]"
proof -
  let ?de = "\<lparr>code = ''de'', languageName = ''German'', nativeName = ''Deutsch''\<rparr>"
  let ?parsed = "Obj [(''description'', Str ''Lies die Doku''), (''linkTexts'', Arr [Str ''Doku''])]"
  have clean: "cleanupTranslation (\<lambda>s. s) ''Lies die Doku'' ''Read the docs'' = ''Lies die Doku''"
    by code_simp
  have parse: "(if ''Lies die Doku'' = ''null'' then Some Null else None) = None"
    by simp
  from C5_fallback_exactly_on_throw
    [of "\<lambda>s. if s = ''null'' then Some Null else None" "''Lies die Doku''" "\<lambda>s. s" "[]"
        "''sec.description''" "''Read the docs''" "[''docs'']" ?de "''Lies die Doku''"]
    clean parse
  have first: "translateDescriptionWithLinks (\<lambda>s. s)
     (\<lambda>s. if s = ''null'' then Some Null else None) [] ''sec.description'' ''Read the docs''
     [''docs''] ?de (Inr ''Lies die Doku'') (Inr ''Lies die Doku'')
   = Inr [\<lparr>resultKey = ''sec.description'', originalValue = ''Read the docs'',
           translatedValue = Str ''Lies die Doku'', targetLanguage = ''de''\<rparr>]"
    by simp
  have d: "descriptionResults ''sec.description'' ''Read the docs'' ?de ?parsed
      = [\<lparr>resultKey = ''sec.description'', originalValue = ''Read the docs'',
           translatedValue = Str ''Lies die Doku'', targetLanguage = ''de''\<rparr>]"
    by code_simp
  have l: "linkResults [] ''sec.description'' [''docs''] ?de ?parsed
      = [\<lparr>resultKey = ''sec.links.0.text'', originalValue = ''docs'',
           translatedValue = Str ''Doku'', targetLanguage = ''de''\<rparr>]"
    by code_simp
  from C5_fallback_exactly_on_throw
    [where jsonParse = "\<lambda>s. Some ?parsed" and raw = "''json''" and parsed = ?parsed
       and trim = "\<lambda>s. s" and patterns = "[]" and descriptionKey = "''sec.description''"
       and description = "''Read the docs''" and linkTexts = "[''docs'']" and lang = ?de
       and fallbackResponse = "Inl ''unused''"]
    d l
  have second: "translateDescriptionWithLinks (\<lambda>s. s) (\<lambda>s. Some ?parsed)
     [] ''sec.description'' ''Read the docs'' [''docs''] ?de (Inr ''json'') (Inl ''unused'')
   = Inr [\<lparr>resultKey = ''sec.description'', originalValue = ''Read the docs'',
           translatedValue = Str ''Lies die Doku'', targetLanguage = ''de''\<rparr>,
          \<lparr>resultKey = ''sec.links.0.text'', originalValue = ''docs'',
           translatedValue = Str ''Doku'', targetLanguage = ''de''\<rparr>]"
    by simp
  from first second show ?thesis by (intro conjI)
qed

text \<open>
  The claim as stated fails for a response that is JSON but not the expected structure:
  the response \<^verbatim>\<open>{}\<close> parses, nothing throws, and the function returns no result at
  all, although the fallback call would have succeeded.
\<close>

theorem C5_no_fallback_counterexample:
  "translateDescriptionWithLinks (\<lambda>s. s)
     (\<lambda>s. if s = ''{}'' then Some (Obj []) else None) [] ''sec.description'' ''Read the docs''
     [''docs''] \<lparr>code = ''de'', languageName = ''German'', nativeName = ''Deutsch''\<rparr>
     (Inr ''{}'') (Inr ''Lies die Doku'')
   = Inr []"
  by code_simp

end
